theory Spec2Isabelle
  imports Complex_Main "HOL-Library.AList"
begin

section \<open>The permission-checked hierarchical store of \<^verbatim>\<open>src/store.ts\<close>\<close>

text \<open>
  The class \<^verbatim>\<open>Store\<close> owns arbitrary named fields, a \<^verbatim>\<open>defaultPolicy\<close>, and (through
  \<^verbatim>\<open>reflect-metadata\<close>) a table of permissions declared with the decorator
  \<^verbatim>\<open>Restrict\<close>.  Paths are strings of segments separated by a colon.

  Conventions of the embedding.
  \<^item> A permission is the string the source uses: \<^verbatim>\<open>'r'\<close> (read-only), \<^verbatim>\<open>'w'\<close>
    (write-only), \<^verbatim>\<open>'rw'\<close> (read-write) and \<^verbatim>\<open>'none'\<close>.  The test
    \<^verbatim>\<open>permission.includes('r')\<close> is membership of a character in that string.
  \<^item> A JavaScript value is a tree: property lists are association lists in insertion
    order, looked up with \<open>map_of\<close> and assigned with \<open>AList.update\<close>.  Objects
    are held by value, so two fields never alias one object, and an in-place mutation of
    the object held at \<^verbatim>\<open>current[key]\<close> is rendered by writing the updated child back
    at \<^verbatim>\<open>key\<close>.
  \<^item> A function value is a zero-argument function that is pure and returns: it is
    given by the value it returns, together with the properties assigned to the function
    object itself.  An array is given by its elements, together with the properties
    assigned to it under names that are not indices.
  \<^item> Property names stand for own data properties only.  Names that the language or the
    class supplies (\<^verbatim>\<open>length\<close>, \<^verbatim>\<open>name\<close>, \<^verbatim>\<open>toString\<close>, \<^verbatim>\<open>constructor\<close>, the
    methods of \<^verbatim>\<open>Store\<close>, and the attribute \<^verbatim>\<open>defaultPolicy\<close>, which is a field of
    its own below) are not used as path segments or field names.
  \<^item> The module is strict-mode code, so assigning a property on a primitive throws a
    \<^verbatim>\<open>TypeError\<close>, as does any property access on \<^verbatim>\<open>undefined\<close> or \<^verbatim>\<open>null\<close>.
  \<^item> A thrown exception is a value of type \<open>error\<close>; \<^verbatim>\<open>new Error(msg)\<close> is
    \<open>Error msg\<close>.  Operations that mutate return the new state, also when they throw.
\<close>

subsection \<open>Values\<close>

datatype error = Error string | TypeError

text \<open>
  Modelled from the spec: the module \<^verbatim>\<open>json-types\<close> (\<^verbatim>\<open>JSONPrimitive\<close>,
  \<^verbatim>\<open>JSONObject\<close>), which the source imports, with the primitives of JSON: null,
  booleans, numbers and strings.  The store does no arithmetic: of a number only the
  test against zero matters, so finite numbers are rationals and \<^verbatim>\<open>NaN\<close> is a
  constant.
\<close>

datatype JSONPrimitive = PNull | PBool bool | PNum rat | PNaN | PStr string

text \<open>
  The class \<^verbatim>\<open>Store\<close>: the attribute \<^verbatim>\<open>defaultPolicy\<close>, the permission metadata
  that \<^verbatim>\<open>Reflect.getMetadata('permission', this, key)\<close> finds for an instance (declared
  on the prototype of its class), and the instance's own fields.  It is a datatype with
  selectors rather than a record because values and stores are mutually nested.
\<close>

datatype 'v Store =
  Store (defaultPolicy: string) (metadata: "(string \<times> string) list")
        (fields: "(string \<times> 'v) list")

datatype StoreValue =
    VUndefined
  | VPrim JSONPrimitive
  | VObject "(string \<times> StoreValue) list"
  | VArray "StoreValue list" "(string \<times> StoreValue) list"
  | VFunction StoreValue "(string \<times> StoreValue) list"
  | VStore "StoreValue Store"

subsection \<open>Paths\<close>

text \<open>\<^verbatim>\<open>path.split(':')\<close> and \<^verbatim>\<open>keys.join(':')\<close>.\<close>

fun splitColon :: "string \<Rightarrow> string list" where
  "splitColon [] = [[]]"
| "splitColon (c # cs) =
     (if c = CHR '':'' then [] # splitColon cs
      else (case splitColon cs of [] \<Rightarrow> [[c]] | k # ks \<Rightarrow> (c # k) # ks))"

fun joinColon :: "string list \<Rightarrow> string" where
  "joinColon [] = []"
| "joinColon [k] = k"
| "joinColon (k # k' # ks) = k @ CHR '':'' # joinColon (k' # ks)"

text \<open>
  \<^verbatim>\<open>keys[0]\<close> used as a property name: on the empty array it is \<^verbatim>\<open>undefined\<close>, whose
  property name is the string \<^verbatim>\<open>"undefined"\<close>.  \<^verbatim>\<open>keys.slice(1)\<close> is \<open>tl keys\<close>.
\<close>

definition first_key :: "string list \<Rightarrow> string" where
  "first_key keys = (case keys of [] \<Rightarrow> ''undefined'' | k # _ \<Rightarrow> k)"

subsection \<open>Property access\<close>

definition lookup :: "(string \<times> StoreValue) list \<Rightarrow> string \<Rightarrow> StoreValue" where
  "lookup ps k = (case map_of ps k of None \<Rightarrow> VUndefined | Some v \<Rightarrow> v)"

text \<open>
  A property name that is an array index: decimal digits without a leading zero, below
  \<open>2^32 - 1\<close>.
\<close>

definition arrayIndex :: "string \<Rightarrow> nat option" where
  "arrayIndex k =
     (if k = [] \<or> (1 < length k \<and> hd k = CHR ''0'')
         \<or> \<not> list_all (\<lambda>c. 48 \<le> (of_char c :: nat) \<and> (of_char c :: nat) \<le> 57) k
      then None
      else (let n = foldl (\<lambda>n c. 10 * n + (of_char c - 48)) 0 k
            in if n < 4294967295 then Some n else None))"

text \<open>JavaScript truthiness, as used by \<^verbatim>\<open>current[key] || {}\<close>.\<close>

fun truthy :: "StoreValue \<Rightarrow> bool" where
  "truthy VUndefined = False"
| "truthy (VPrim PNull) = False"
| "truthy (VPrim (PBool b)) = b"
| "truthy (VPrim (PNum n)) = (n \<noteq> 0)"
| "truthy (VPrim PNaN) = False"
| "truthy (VPrim (PStr s)) = (s \<noteq> [])"
| "truthy (VObject ps) = True"
| "truthy (VArray xs ps) = True"
| "truthy (VFunction r ps) = True"
| "truthy (VStore s) = True"

text \<open>\<^verbatim>\<open>v instanceof Store\<close>, \<^verbatim>\<open>v instanceof Function\<close> and the call \<^verbatim>\<open>v()\<close>.\<close>

fun isStore :: "StoreValue \<Rightarrow> bool" where
  "isStore (VStore s) = True"
| "isStore v = False"

fun isFunction :: "StoreValue \<Rightarrow> bool" where
  "isFunction (VFunction r ps) = True"
| "isFunction v = False"

fun call :: "StoreValue \<Rightarrow> StoreValue" where
  "call (VFunction r ps) = r"
| "call v = VUndefined"

text \<open>
  The read \<^verbatim>\<open>current[key]\<close>: a \<^verbatim>\<open>TypeError\<close> on \<^verbatim>\<open>undefined\<close> and \<^verbatim>\<open>null\<close>, a
  character of a string or an element of an array at an index, \<^verbatim>\<open>undefined\<close> on the
  other primitives and for a property that an object does not have.
\<close>

fun getProp :: "StoreValue \<Rightarrow> string \<Rightarrow> error + StoreValue" where
  "getProp VUndefined k = Inl TypeError"
| "getProp (VPrim PNull) k = Inl TypeError"
| "getProp (VPrim (PStr s)) k =
     Inr (case arrayIndex k of
            Some i \<Rightarrow> if i < length s then VPrim (PStr [s ! i]) else VUndefined
          | None \<Rightarrow> VUndefined)"
| "getProp (VPrim p) k = Inr VUndefined"
| "getProp (VObject ps) k = Inr (lookup ps k)"
| "getProp (VArray xs ps) k =
     Inr (case arrayIndex k of
            Some i \<Rightarrow> if i < length xs then xs ! i else VUndefined
          | None \<Rightarrow> lookup ps k)"
| "getProp (VFunction r ps) k = Inr (lookup ps k)"
| "getProp (VStore s) k = Inr (lookup (fields s) k)"

text \<open>
  The assignment \<^verbatim>\<open>current[key] = v\<close>: \<open>putProp\<close> is its effect on an object,
  \<open>setProp\<close> the assignment itself, which throws on everything that is not an object.
  An assignment beyond the end of an array lengthens it; the elements in between read as
  \<^verbatim>\<open>undefined\<close>.
\<close>

fun isObject :: "StoreValue \<Rightarrow> bool" where
  "isObject (VObject ps) = True"
| "isObject (VArray xs ps) = True"
| "isObject (VFunction r ps) = True"
| "isObject (VStore s) = True"
| "isObject v = False"

definition assignField :: "'v Store \<Rightarrow> string \<Rightarrow> 'v \<Rightarrow> 'v Store" where
  "assignField this k v =
     Store (defaultPolicy this) (metadata this) (AList.update k v (fields this))"

fun putProp :: "StoreValue \<Rightarrow> string \<Rightarrow> StoreValue \<Rightarrow> StoreValue" where
  "putProp (VObject ps) k v = VObject (AList.update k v ps)"
| "putProp (VArray xs ps) k v =
     (case arrayIndex k of
        Some i \<Rightarrow>
          VArray (if i < length xs then xs[i := v]
                  else xs @ replicate (i - length xs) VUndefined @ [v]) ps
      | None \<Rightarrow> VArray xs (AList.update k v ps))"
| "putProp (VFunction r ps) k v = VFunction r (AList.update k v ps)"
| "putProp (VStore s) k v = VStore (assignField s k v)"
| "putProp current k v = current"

definition setProp :: "StoreValue \<Rightarrow> string \<Rightarrow> StoreValue \<Rightarrow> error + StoreValue" where
  "setProp current k v =
     (if isObject current then Inr (putProp current k v) else Inl TypeError)"

subsection \<open>Declaring permissions: \<^verbatim>\<open>Restrict\<close>\<close>

text \<open>
  \<^verbatim>\<open>Reflect.defineMetadata('permission', permission, target, propertyKey)\<close> on the
  metadata table of \<open>target\<close>, and \<^verbatim>\<open>Reflect.getMetadata('permission', this, key)\<close>.
\<close>

definition defineMetadata ::
  "string \<Rightarrow> (string \<times> string) list \<Rightarrow> string \<Rightarrow> (string \<times> string) list" where
  "defineMetadata permission target propertyKey = AList.update propertyKey permission target"

definition getMetadata :: "'v Store \<Rightarrow> string \<Rightarrow> string option" where
  "getMetadata this key = map_of (metadata this) key"

text \<open>
  \<^verbatim>\<open>Restrict(permission?)\<close>: the argument is \<open>None\<close> when it is missing.  A string is
  truthy when it is not empty.  The result is the property decorator, a function of the
  target's metadata table and the property name.
\<close>

definition Restrict ::
  "string option \<Rightarrow> error + ((string \<times> string) list \<Rightarrow> string \<Rightarrow> (string \<times> string) list)" where
  "Restrict permission =
     (case permission of
        Some p \<Rightarrow>
          if p \<noteq> [] \<and> p \<notin> set [''r'', ''w'', ''rw'', ''none'']
          then Inl (Error (''Invalid permission: '' @ p))
          else Inr (defineMetadata (if p = [] then ''none'' else p))
      | None \<Rightarrow> Inr (defineMetadata ''none''))"

text \<open>
  The declaration \<^verbatim>\<open>@Restrict(permission) propertyKey\<close> in a class body: the
  decorator factory is evaluated, and what it returns is applied to the prototype and the
  property name.  The result is the metadata table afterwards and the exception, if any.
\<close>

definition decorate ::
  "string option \<Rightarrow> string \<Rightarrow> (string \<times> string) list
     \<Rightarrow> (string \<times> string) list \<times> error option" where
  "decorate permission propertyKey target =
     (case Restrict permission of
        Inl e \<Rightarrow> (target, Some e)
      | Inr decorator \<Rightarrow> (decorator target propertyKey, None))"

subsection \<open>The class \<^verbatim>\<open>Store\<close>\<close>

text \<open>\<^verbatim>\<open>new Store()\<close> for a class whose prototype carries the metadata \<open>md\<close>.\<close>

definition new_Store :: "(string \<times> string) list \<Rightarrow> StoreValue Store" where
  "new_Store md = Store ''rw'' md []"

definition str_includes :: "string \<Rightarrow> char \<Rightarrow> bool" where
  "str_includes s c = (c \<in> set s)"

definition allowedToRead :: "'v Store \<Rightarrow> string \<Rightarrow> bool" where
  "allowedToRead this key =
     (case getMetadata this key of
        Some permission \<Rightarrow>
          if permission \<noteq> [] then str_includes permission CHR ''r''
          else str_includes (defaultPolicy this) CHR ''r''
      | None \<Rightarrow> str_includes (defaultPolicy this) CHR ''r'')"

definition allowedToWrite :: "'v Store \<Rightarrow> string \<Rightarrow> bool" where
  "allowedToWrite this key =
     (case getMetadata this key of
        Some permission \<Rightarrow>
          if permission \<noteq> [] then str_includes permission CHR ''w''
          else str_includes (defaultPolicy this) CHR ''w''
      | None \<Rightarrow> str_includes (defaultPolicy this) CHR ''w'')"

text \<open>
  \<^verbatim>\<open>performRead(keys, current)\<close>.  The recursion follows the source: the first test
  does not look at the number of keys, so a store found at the last key is entered with
  no key left.
\<close>

function performRead :: "string list \<Rightarrow> StoreValue \<Rightarrow> error + StoreValue" where
  "performRead keys current =
     (let key = first_key keys in
      case getProp current key of
        Inl e \<Rightarrow> Inl e
      | Inr v \<Rightarrow>
          if isStore v then performRead (tl keys) v
          else if isFunction v then
            (if length keys = 1 then Inr (call v) else performRead (tl keys) (call v))
          else if 1 < length keys then performRead (tl keys) v
          else Inr v)"
  by pat_completeness auto

lemma size_map_of:
  "map_of ps k = Some v \<Longrightarrow> size v < Suc (size_list (size_prod (\<lambda>_. 0) size) ps)"
  by (induction ps) (auto split: if_splits)

lemma size_member: "x \<in> set xs \<Longrightarrow> size x < Suc (size_list size xs)"
  by (induction xs) auto

lemma getProp_size:
  assumes "getProp current k = Inr v" and "isStore v \<or> isFunction v"
  shows "size v < size current"
proof (cases current)
  case (VArray xs ps)
  have "size (xs ! i) < size (VArray xs ps)" if "i < length xs" for i
    using size_member[of "xs ! i" xs] that by simp
  moreover have "size v < size (VArray xs ps)" if "map_of ps k = Some v"
    using size_map_of[OF that] by simp
  ultimately show ?thesis
    using assms VArray by (auto simp: lookup_def split: option.splits if_splits)
next
  case (VPrim p)
  with assms show ?thesis
    by (cases p) (auto split: option.splits if_splits)
next
  case (VStore s)
  with assms show ?thesis
    by (cases s) (auto simp: lookup_def split: option.splits dest: size_map_of)
qed (use assms in \<open>auto simp: lookup_def split: option.splits dest: size_map_of\<close>)

lemma call_size: "isFunction v \<Longrightarrow> size (call v) < size v"
  by (cases v) auto

termination performRead
proof (relation "inv_image (less_than <*lex*> less_than)
                  (\<lambda>(keys, current). (length keys, size current))", goal_cases)
  case 1
  show ?case by (intro wf_inv_image wf_lex_prod wf_less_than)
next
  case (2 keys current key v)
  then show ?case
    by (cases keys) (auto dest: getProp_size)
next
  case (3 keys current key v)
  then show ?case
    using getProp_size[of current key v] call_size[of v]
    by (cases keys) auto
next
  case (4 keys current key v)
  then show ?case by (cases keys) auto
qed

text \<open>
  \<^verbatim>\<open>performWrite(keys, value, current)\<close>: the result is \<open>current\<close> after the call and
  the exception thrown, if any.
\<close>

function performWrite ::
  "string list \<Rightarrow> StoreValue \<Rightarrow> StoreValue \<Rightarrow> StoreValue \<times> error option" where
  "performWrite keys val current =
     (let key = first_key keys in
      if 1 < length keys then
        (case getProp current key of
           Inl e \<Rightarrow> (current, Some e)
         | Inr c \<Rightarrow>
             if isStore c then
               (case performWrite (tl keys) val c of
                  (c', r) \<Rightarrow> (putProp current key c', r))
             else
               (let c0 = (if truthy c then c else VObject []) in
                case setProp current key c0 of
                  Inl e \<Rightarrow> (current, Some e)
                | Inr current1 \<Rightarrow>
                    (case performWrite (tl keys) val c0 of
                       (c', r) \<Rightarrow> (putProp current1 key c', r))))
      else
        (case setProp current key val of
           Inl e \<Rightarrow> (current, Some e)
         | Inr current' \<Rightarrow> (current', None)))"
  by pat_completeness auto
termination
  by (relation "measure (\<lambda>(keys, val, current). length keys)") auto

text \<open>
  The test \<^verbatim>\<open>keys.length > 1 && this[key] instanceof Store\<close> of \<^verbatim>\<open>read\<close> and
  \<^verbatim>\<open>write\<close>, giving the nested store to which the call is passed on.
\<close>

definition nestedStore :: "string list \<Rightarrow> StoreValue Store \<Rightarrow> StoreValue Store option" where
  "nestedStore keys this =
     (if 1 < length keys then
        (case lookup (fields this) (first_key keys) of
           VStore nested \<Rightarrow> Some nested
         | _ \<Rightarrow> None)
      else None)"

lemma splitColon_not_Nil [simp]: "splitColon p \<noteq> []"
  by (induction p) (auto split: list.splits)

lemma joinColon_Cons: "ks \<noteq> [] \<Longrightarrow> joinColon (k # ks) = k @ CHR '':'' # joinColon ks"
  by (cases ks) auto

lemma joinColon_Cons_Cons: "joinColon ((c # x) # xs) = c # joinColon (x # xs)"
  by (cases xs) auto

lemma joinColon_splitColon [simp]: "joinColon (splitColon p) = p"
proof (induction p)
  case Nil
  show ?case by simp
next
  case (Cons c cs)
  obtain x xs where sp: "splitColon cs = x # xs"
    by (cases "splitColon cs") auto
  show ?case
  proof (cases "c = CHR '':''")
    case True
    then show ?thesis using Cons by (simp add: joinColon_Cons)
  next
    case False
    then show ?thesis using Cons sp by (simp add: joinColon_Cons_Cons)
  qed
qed

lemma length_joinColon_tl:
  "1 < length ks \<Longrightarrow> length (joinColon (tl ks)) < length (joinColon ks)"
  by (cases ks) (auto simp: joinColon_Cons)

lemma nestedStore_length: "nestedStore keys this = Some nested \<Longrightarrow> 1 < length keys"
  by (auto simp: nestedStore_def split: if_splits)

text \<open>
  \<^verbatim>\<open>read(path)\<close>.  Reading does not change the store.  The recursive call is the call
  \<^verbatim>\<open>this[key].read(keys.slice(1).join(':'))\<close> on the nested store.
\<close>

function Store_read :: "StoreValue Store \<Rightarrow> string \<Rightarrow> error + StoreValue" where
  "Store_read this path =
     (let keys = splitColon path; key = first_key keys in
      case nestedStore keys this of
        Some nested \<Rightarrow> Store_read nested (joinColon (tl keys))
      | None \<Rightarrow>
          if \<not> allowedToRead this key then Inl (Error ''No permission for read'')
          else
            (case (if 1 < length keys then performRead keys (VStore this)
                   else Inr (lookup (fields this) key)) of
               Inl e \<Rightarrow> Inl e
             | Inr result \<Rightarrow> Inr (if isFunction result then call result else result)))"
  by pat_completeness auto
termination
proof (relation "measure (\<lambda>(this, path). length path)", goal_cases)
  case 1
  show ?case by simp
next
  case (2 this path keys key nested)
  then show ?case
    using length_joinColon_tl[of "splitColon path"]
      nestedStore_length[of "splitColon path" this nested]
    by simp
qed

text \<open>
  \<^verbatim>\<open>write(path, value)\<close>: the store after the call, and the value returned or the
  exception thrown.  A write passed on to a nested store changes that store, which the
  field \<^verbatim>\<open>key\<close> of this store holds.
\<close>

function Store_write ::
  "StoreValue Store \<Rightarrow> string \<Rightarrow> StoreValue \<Rightarrow> StoreValue Store \<times> (error + StoreValue)" where
  "Store_write this path val =
     (let keys = splitColon path; key = first_key keys in
      case nestedStore keys this of
        Some nested \<Rightarrow>
          (case Store_write nested (joinColon (tl keys)) val of
             (nested', r) \<Rightarrow> (assignField this key (VStore nested'), r))
      | None \<Rightarrow>
          if \<not> allowedToWrite this key then (this, Inl (Error ''No permission for write''))
          else
            (case performWrite keys val (VStore this) of
               (current', r) \<Rightarrow>
                 (case current' of VStore this' \<Rightarrow> this' | _ \<Rightarrow> this,
                  case r of Some e \<Rightarrow> Inl e | None \<Rightarrow> Inr val)))"
  by pat_completeness auto
termination
proof (relation "measure (\<lambda>(this, path, val). length path)", goal_cases)
  case 1
  show ?case by simp
next
  case (2 this path val keys key nested)
  then show ?case
    using length_joinColon_tl[of "splitColon path"]
      nestedStore_length[of "splitColon path" this nested]
    by simp
qed

text \<open>
  \<^verbatim>\<open>writeEntries(entries)\<close> assigns every entry as a field, and \<^verbatim>\<open>entries()\<close> collects
  the fields of \<^verbatim>\<open>Object.keys(this)\<close> that have truthy permission metadata and may be
  read.
\<close>

definition writeEntries ::
  "StoreValue Store \<Rightarrow> (string \<times> StoreValue) list \<Rightarrow> StoreValue Store" where
  "writeEntries this entries =
     fold (\<lambda>entry this'. assignField this' entry (lookup entries entry)) (map fst entries) this"

definition hasMetadata :: "'v Store \<Rightarrow> string \<Rightarrow> bool" where
  "hasMetadata this key = (case getMetadata this key of Some p \<Rightarrow> p \<noteq> [] | None \<Rightarrow> False)"

definition entries :: "StoreValue Store \<Rightarrow> (string \<times> StoreValue) list" where
  "entries this =
     fold (\<lambda>key entries.
             if hasMetadata this key \<and> allowedToRead this key
             then AList.update key (lookup (fields this) key) entries
             else entries)
          (map fst (fields this)) []"

text \<open>
  The plain objects that a write creates along a path: \<open>nest [k1, ..., kn] v\<close> is
  \<^verbatim>\<open>{k1: {... {kn: v}}}\<close>.
\<close>

fun nest :: "string list \<Rightarrow> StoreValue \<Rightarrow> StoreValue" where
  "nest [] v = v"
| "nest (k # ks) v = VObject [(k, nest ks v)]"

section \<open>Basic facts\<close>

declare performRead.simps [simp del] performWrite.simps [simp del]
  Store_read.simps [simp del] Store_write.simps [simp del]

text \<open>The traversal throws nothing but a \<^verbatim>\<open>TypeError\<close>.\<close>

lemma getProp_error: "getProp current k = Inl e \<Longrightarrow> e = TypeError"
  by (cases "(current, k)" rule: getProp.cases) auto

lemma setProp_error: "setProp current k v = Inl e \<Longrightarrow> e = TypeError"
  by (auto simp: setProp_def split: if_splits)

lemma performRead_error: "performRead keys current = Inl e \<Longrightarrow> e = TypeError"
proof (induction keys current rule: performRead.induct)
  case (1 keys current)
  show ?case
    using "1.prems"[unfolded performRead.simps[of keys current]] "1.IH"
    by (auto simp: Let_def split: sum.splits if_splits dest: getProp_error)
qed

lemma performWrite_error: "snd (performWrite keys val current) = Some e \<Longrightarrow> e = TypeError"
proof (induction keys val current rule: performWrite.induct)
  case (1 keys val current)
  show ?case
    using "1.prems"[unfolded performWrite.simps[of keys val current]] "1.IH"
    by (auto simp: Let_def split: sum.splits if_splits prod.splits
          dest: getProp_error setProp_error)
qed

text \<open>The two branches of \<^verbatim>\<open>read\<close> and \<^verbatim>\<open>write\<close>.\<close>

lemma nestedStore_Some:
  "1 < length keys \<Longrightarrow> lookup (fields this) (first_key keys) = VStore nested \<Longrightarrow>
   nestedStore keys this = Some nested"
  by (simp add: nestedStore_def)

lemma Store_read_own:
  "nestedStore (splitColon path) this = None \<Longrightarrow>
   Store_read this path =
     (if \<not> allowedToRead this (first_key (splitColon path))
      then Inl (Error ''No permission for read'')
      else (case (if 1 < length (splitColon path)
                  then performRead (splitColon path) (VStore this)
                  else Inr (lookup (fields this) (first_key (splitColon path)))) of
              Inl e \<Rightarrow> Inl e
            | Inr result \<Rightarrow> Inr (if isFunction result then call result else result)))"
  by (subst Store_read.simps) (simp add: Let_def)

lemma Store_write_own:
  "nestedStore (splitColon path) this = None \<Longrightarrow>
   Store_write this path val =
     (if \<not> allowedToWrite this (first_key (splitColon path))
      then (this, Inl (Error ''No permission for write''))
      else (case performWrite (splitColon path) val (VStore this) of
              (current', r) \<Rightarrow>
                (case current' of VStore this' \<Rightarrow> this' | _ \<Rightarrow> this,
                 case r of Some e \<Rightarrow> Inl e | None \<Rightarrow> Inr val)))"
  by (subst Store_write.simps) (simp add: Let_def)

lemma Store_read_nested:
  "nestedStore (splitColon path) this = Some nested \<Longrightarrow>
   Store_read this path = Store_read nested (joinColon (tl (splitColon path)))"
  by (subst Store_read.simps) (simp add: Let_def)

lemma Store_write_nested:
  "nestedStore (splitColon path) this = Some nested \<Longrightarrow>
   Store_write this path val =
     (assignField this (first_key (splitColon path))
        (VStore (fst (Store_write nested (joinColon (tl (splitColon path))) val))),
      snd (Store_write nested (joinColon (tl (splitColon path))) val))"
  by (subst Store_write.simps) (simp add: Let_def split: prod.splits)

lemma allowed_rw:
  "defaultPolicy this = ''rw'' \<Longrightarrow> metadata this = [] \<Longrightarrow>
   allowedToRead this key \<and> allowedToWrite this key"
  by (simp add: allowedToRead_def allowedToWrite_def getMetadata_def str_includes_def)

text \<open>The loop of \<^verbatim>\<open>entries\<close>.\<close>

lemma fold_update_keys:
  "fst ` set (fold (\<lambda>key es. if P key then AList.update key (f key) es else es) ks acc)
     = fst ` set acc \<union> {k \<in> set ks. P k}"
  by (induction ks arbitrary: acc) (auto simp: dom_update)

lemma fold_update_map_of:
  "map_of (fold (\<lambda>key es. if P key then AList.update key (f key) es else es) ks acc) k
     = (if k \<in> set ks \<and> P k then Some (f k) else map_of acc k)"
  by (induction ks arbitrary: acc) (auto simp: update_conv')

text \<open>Splitting a joined path gives the segments back.\<close>

lemma splitColon_single: "CHR '':'' \<notin> set k \<Longrightarrow> splitColon k = [k]"
  by (induction k) auto

lemma splitColon_append:
  "CHR '':'' \<notin> set k \<Longrightarrow> splitColon (k @ CHR '':'' # p) = k # splitColon p"
  by (induction k) auto

lemma splitColon_joinColon:
  "ks \<noteq> [] \<Longrightarrow> list_all (\<lambda>k. CHR '':'' \<notin> set k) ks \<Longrightarrow> splitColon (joinColon ks) = ks"
proof (induction ks rule: joinColon.induct)
  case 1
  then show ?case by simp
next
  case (2 k)
  then show ?case by (simp add: splitColon_single)
next
  case (3 k k' ks)
  then show ?case by (simp add: splitColon_append)
qed

text \<open>Single steps of the traversal.\<close>

lemma performRead_function_last:
  "getProp current key = Inr (VFunction r ps) \<Longrightarrow> performRead [key] current = Inr r"
  by (simp add: performRead.simps[of "[key]" current] first_key_def)

lemma performRead_function_step:
  "getProp current key = Inr (VFunction r ps) \<Longrightarrow> rest \<noteq> [] \<Longrightarrow>
   performRead (key # rest) current = performRead rest r"
  by (simp add: performRead.simps[of "key # rest" current] first_key_def)

lemma performRead_plain_step:
  "getProp current key = Inr c \<Longrightarrow> \<not> isStore c \<Longrightarrow> \<not> isFunction c \<Longrightarrow> rest \<noteq> [] \<Longrightarrow>
   performRead (key # rest) current = performRead rest c"
  by (simp add: performRead.simps[of "key # rest" current] first_key_def)

lemma performRead_plain_last:
  "getProp current key = Inr c \<Longrightarrow> \<not> isStore c \<Longrightarrow> \<not> isFunction c \<Longrightarrow>
   performRead [key] current = Inr c"
  by (simp add: performRead.simps[of "[key]" current] first_key_def)

lemma nest_not_Store: "ks \<noteq> [] \<Longrightarrow> \<not> isStore (nest ks v) \<and> \<not> isFunction (nest ks v)"
  by (cases ks) auto

lemma performRead_nest_function:
  "ks \<noteq> [] \<Longrightarrow> performRead ks (nest ks (VFunction r ps)) = Inr r"
proof (induction ks)
  case Nil
  then show ?case by simp
next
  case (Cons k ks)
  show ?case
  proof (cases "ks = []")
    case True
    then show ?thesis
      by (simp add: performRead_function_last lookup_def)
  next
    case False
    then have "performRead (k # ks) (nest (k # ks) (VFunction r ps))
        = performRead ks (nest ks (VFunction r ps))"
      using nest_not_Store[of ks "VFunction r ps"]
      by (intro performRead_plain_step) (simp_all add: lookup_def)
    with Cons False show ?thesis by simp
  qed
qed

lemma performRead_nest_plain:
  "ks \<noteq> [] \<Longrightarrow> \<not> isStore v \<Longrightarrow> \<not> isFunction v \<Longrightarrow> performRead ks (nest ks v) = Inr v"
proof (induction ks)
  case Nil
  then show ?case by simp
next
  case (Cons k ks)
  show ?case
  proof (cases "ks = []")
    case True
    with Cons.prems show ?thesis
      by (simp add: performRead_plain_last lookup_def)
  next
    case False
    then have "performRead (k # ks) (nest (k # ks) v) = performRead ks (nest ks v)"
      using nest_not_Store[of ks v]
      by (intro performRead_plain_step) (simp_all add: lookup_def)
    with Cons False show ?thesis by simp
  qed
qed

lemma performWrite_last:
  "performWrite [key] val current =
     (case setProp current key val of Inl e \<Rightarrow> (current, Some e) | Inr c' \<Rightarrow> (c', None))"
  by (simp add: performWrite.simps[of "[key]" val current] first_key_def)

lemma performWrite_empty_object:
  "ks \<noteq> [] \<Longrightarrow> performWrite ks val (VObject []) = (nest ks val, None)"
proof (induction ks)
  case Nil
  then show ?case by simp
next
  case (Cons k ks)
  show ?case
  proof (cases "ks = []")
    case True
    then show ?thesis by (simp add: performWrite_last setProp_def)
  next
    case False
    with Cons have IH: "performWrite ks val (VObject []) = (nest ks val, None)" by simp
    from False have len: "1 < length (k # ks)" by (cases ks) auto
    show ?thesis
      using len IH
      by (simp add: performWrite.simps[of "k # ks" val "VObject []"] first_key_def
          lookup_def setProp_def)
  qed
qed

lemma list_update_past_end:
  "\<not> i < length xs \<Longrightarrow>
   (xs @ replicate (i - length xs) u @ [a])[i := b] = xs @ replicate (i - length xs) u @ [b]"
proof -
  assume "\<not> i < length xs"
  then have i: "i = length xs + length (replicate (i - length xs) u)" by simp
  have "(xs @ replicate (i - length xs) u @ [a])
          [length xs + length (replicate (i - length xs) u) := b]
        = xs @ replicate (i - length xs) u @ [b]"
    by (simp only: list_update_append list_update_length) simp
  with i show ?thesis by simp
qed

lemma putProp_putProp [simp]: "putProp (putProp current k a) k b = putProp current k b"
  by (cases current) (auto simp: assignField_def list_update_past_end split: option.splits)

lemma performWrite_vivify:
  assumes "1 < length keys" and "isObject current"
    and "getProp current (first_key keys) = Inr c" and "\<not> truthy c"
  shows "performWrite keys val current
           = (putProp current (first_key keys) (nest (tl keys) val), None)"
proof -
  from assms(4) have ns: "\<not> isStore c" by (cases c) auto
  from assms(1) have "tl keys \<noteq> []" by (cases keys) auto
  then have "performWrite (tl keys) val (VObject []) = (nest (tl keys) val, None)"
    by (rule performWrite_empty_object)
  with assms ns show ?thesis
    by (simp add: performWrite.simps[of keys val current] setProp_def)
qed

lemma performWrite_existing:
  assumes "1 < length keys" and "isObject current"
    and "getProp current (first_key keys) = Inr c" and "truthy c \<or> isStore c"
  shows "performWrite keys val current
           = (putProp current (first_key keys) (fst (performWrite (tl keys) val c)),
              snd (performWrite (tl keys) val c))"
  using assms
  by (auto simp: performWrite.simps[of keys val current] setProp_def Let_def split: prod.splits)

text \<open>
  The traversal of a store looks at its fields only, never at its policy or metadata.
\<close>

lemma performRead_Store_fields:
  "performRead keys (VStore (Store p m fs)) = performRead keys (VStore (Store p' m' fs))"
  by (simp add: performRead.simps[of keys "VStore (Store p m fs)"]
      performRead.simps[of keys "VStore (Store p' m' fs)"])

lemma performWrite_Store_fields:
  "performWrite keys val (VStore (Store p m fs))
     = (case performWrite keys val (VStore (Store p' m' fs)) of
          (c, r) \<Rightarrow> (case c of VStore s \<Rightarrow> VStore (Store p m (fields s)) | _ \<Rightarrow> c, r))"
  by (simp add: performWrite.simps[of keys val "VStore (Store p m fs)"]
      performWrite.simps[of keys val "VStore (Store p' m' fs)"]
      Let_def setProp_def assignField_def split: sum.splits prod.splits)

lemma performWrite_isStore:
  "\<exists>fs' r. performWrite keys val (VStore (Store p m fs)) = (VStore (Store p m fs'), r)"
  by (simp add: performWrite.simps[of keys val "VStore (Store p m fs)"]
      Let_def setProp_def assignField_def split: sum.splits prod.splits)

lemma nestedStore_fields:
  "fields this' = fields this \<Longrightarrow> nestedStore keys this' = nestedStore keys this"
  by (simp add: nestedStore_def)

lemma performRead_fields:
  "fields this' = fields this \<Longrightarrow> performRead keys (VStore this') = performRead keys (VStore this)"
  by (cases this; cases this') (simp add: performRead_Store_fields)

lemma performWrite_fields:
  assumes "fields this' = fields this"
  shows "\<exists>fs r. performWrite keys val (VStore this')
                  = (VStore (Store (defaultPolicy this') (metadata this') fs), r) \<and>
                performWrite keys val (VStore this)
                  = (VStore (Store (defaultPolicy this) (metadata this) fs), r)"
proof -
  obtain p m fs where t: "this = Store p m fs" by (cases this)
  obtain p' m' where t': "this' = Store p' m' fs" using assms t by (cases this') simp
  obtain fs' r where w: "performWrite keys val (VStore (Store p m fs)) = (VStore (Store p m fs'), r)"
    using performWrite_isStore by blast
  have "performWrite keys val (VStore (Store p' m' fs)) = (VStore (Store p' m' fs'), r)"
    by (subst performWrite_Store_fields[of _ _ _ _ _ p m]) (simp add: w)
  with w t t' show ?thesis by simp
qed

text \<open>The equations that evaluate the operations on a concrete store.\<close>

lemmas store_eval =
  Store_read.simps Store_write.simps performRead.simps performWrite.simps
  nestedStore_def first_key_def lookup_def allowedToRead_def allowedToWrite_def
  getMetadata_def str_includes_def setProp_def assignField_def Let_def

section \<open>Permissions\<close>

text \<open>
  Claim C4.  For a field with no declared permission, \<^verbatim>\<open>allowedToRead\<close> and
  \<^verbatim>\<open>allowedToWrite\<close> mirror the store's \<^verbatim>\<open>defaultPolicy\<close>: read-write (\<^verbatim>\<open>'rw'\<close>)
  gives (true, true), read-only (\<^verbatim>\<open>'r'\<close>) gives (true, false), write-only (\<^verbatim>\<open>'w'\<close>)
  gives (false, true) and \<^verbatim>\<open>'none'\<close> gives (false, false).  For a field with a declared
  permission, the declared permission alone decides both by the same table, whatever
  the \<^verbatim>\<open>defaultPolicy\<close> is.
\<close>

theorem allowed_mirrors_policy:
  "(getMetadata this key = None \<longrightarrow>
      (defaultPolicy this = ''rw'' \<longrightarrow> allowedToRead this key \<and> allowedToWrite this key) \<and>
      (defaultPolicy this = ''r'' \<longrightarrow> allowedToRead this key \<and> \<not> allowedToWrite this key) \<and>
      (defaultPolicy this = ''w'' \<longrightarrow> \<not> allowedToRead this key \<and> allowedToWrite this key) \<and>
      (defaultPolicy this = ''none'' \<longrightarrow>
         \<not> allowedToRead this key \<and> \<not> allowedToWrite this key)) \<and>
   (getMetadata this key = Some ''rw'' \<longrightarrow> allowedToRead this key \<and> allowedToWrite this key) \<and>
   (getMetadata this key = Some ''r'' \<longrightarrow> allowedToRead this key \<and> \<not> allowedToWrite this key) \<and>
   (getMetadata this key = Some ''w'' \<longrightarrow> \<not> allowedToRead this key \<and> allowedToWrite this key) \<and>
   (getMetadata this key = Some ''none'' \<longrightarrow>
      \<not> allowedToRead this key \<and> \<not> allowedToWrite this key)"
  by (simp add: allowedToRead_def allowedToWrite_def str_includes_def)

theorem allowed_mirrors_policy_witness:
  "allowedToRead (Store ''r'' [(''secret'', ''w'')] [(''secret'', VUndefined)]) ''name'' \<and>
   \<not> allowedToWrite (Store ''r'' [(''secret'', ''w'')] [(''secret'', VUndefined)]) ''name'' \<and>
   \<not> allowedToRead (Store ''r'' [(''secret'', ''w'')] [(''secret'', VUndefined)]) ''secret'' \<and>
   allowedToWrite (Store ''r'' [(''secret'', ''w'')] [(''secret'', VUndefined)]) ''secret''"
  using
    allowed_mirrors_policy
      [of "Store ''r'' [(''secret'', ''w'')] [(''secret'', VUndefined)]" "''name''"]
    allowed_mirrors_policy
      [of "Store ''r'' [(''secret'', ''w'')] [(''secret'', VUndefined)]" "''secret''"]
  by (simp add: getMetadata_def)

text \<open>
  Claim C10.  A newly constructed store has \<^verbatim>\<open>defaultPolicy\<close> equal to read-write
  (\<^verbatim>\<open>'rw'\<close>).  With no declaration and the policy untouched,
  \<^verbatim>\<open>allowedToRead\<close> and \<^verbatim>\<open>allowedToWrite\<close> are true for every field name, and no
  read or write that the store handles itself (one that it does not pass on to a nested
  store) fails for lack of permission.
\<close>

theorem new_Store_permits:
  "defaultPolicy (new_Store md) = ''rw'' \<and>
   allowedToRead (new_Store []) key \<and> allowedToWrite (new_Store []) key \<and>
   Store_read (new_Store []) path \<noteq> Inl (Error ''No permission for read'') \<and>
   snd (Store_write (new_Store []) path val) \<noteq> Inl (Error ''No permission for write'') \<and>
   (defaultPolicy this = ''rw'' \<and> metadata this = [] \<longrightarrow>
      allowedToRead this key \<and> allowedToWrite this key \<and>
      (nestedStore (splitColon path) this = None \<longrightarrow>
         Store_read this path \<noteq> Inl (Error ''No permission for read'') \<and>
         snd (Store_write this path val) \<noteq> Inl (Error ''No permission for write'')))"
proof -
  have own: "Store_read this path \<noteq> Inl (Error ''No permission for read'') \<and>
         snd (Store_write this path val) \<noteq> Inl (Error ''No permission for write'')"
    if "defaultPolicy this = ''rw''" "metadata this = []"
      "nestedStore (splitColon path) this = None"
    for this
  proof -
    have r: "Store_read this path \<noteq> Inl (Error ''No permission for read'')"
      using that allowed_rw[of this] performRead_error[of "splitColon path" "VStore this"]
      by (auto simp: Store_read_own split: sum.splits if_splits)
    have w: "snd (Store_write this path val) \<noteq> Inl (Error ''No permission for write'')"
      using that allowed_rw[of this] performWrite_error[of "splitColon path" val "VStore this"]
      by (auto simp: Store_write_own split: prod.splits option.splits)
    from r w show ?thesis ..
  qed
  have none: "nestedStore (splitColon path) (new_Store []) = None"
    by (simp add: nestedStore_def new_Store_def lookup_def)
  show ?thesis
    using own[of "new_Store []"] own[of this] none
      allowed_rw[of "new_Store []"] allowed_rw[of this]
    by (simp add: new_Store_def)
qed

theorem new_Store_permits_witness:
  "allowedToRead (Store ''rw'' [] [(''a'', VObject [])]) ''a'' \<and>
   allowedToWrite (Store ''rw'' [] [(''a'', VObject [])]) ''a'' \<and>
   Store_read (Store ''rw'' [] [(''a'', VObject [])]) ''a:b''
     \<noteq> Inl (Error ''No permission for read'') \<and>
   snd (Store_write (Store ''rw'' [] [(''a'', VObject [])]) ''a:b'' (VPrim (PNum 5)))
     \<noteq> Inl (Error ''No permission for write'')"
proof -
  have n: "nestedStore (splitColon ''a:b'') (Store ''rw'' [] [(''a'', VObject [])]) = None"
    by (simp add: nestedStore_def first_key_def lookup_def)
  show ?thesis
    using n new_Store_permits
      [of "[]" "''a''" "''a:b''" "VPrim (PNum 5)" "Store ''rw'' [] [(''a'', VObject [])]"]
    by simp
qed

text \<open>
  What the check of \<^verbatim>\<open>Restrict\<close> does: a non-empty string outside \<^verbatim>\<open>'r'\<close>,
  \<^verbatim>\<open>'w'\<close>, \<^verbatim>\<open>'rw'\<close>, \<^verbatim>\<open>'none'\<close> throws \<^verbatim>\<open>Error('Invalid permission: ...')\<close> when the
  declaration is evaluated, so that no decorator is returned and the metadata table is as
  before; a valid permission is registered as given; a missing argument registers
  \<^verbatim>\<open>'none'\<close>.
\<close>

lemma Restrict_rejects_invalid:
  "(p \<noteq> [] \<and> p \<notin> {''r'', ''w'', ''rw'', ''none''} \<longrightarrow>
      Restrict (Some p) = Inl (Error (''Invalid permission: '' @ p)) \<and>
      decorate (Some p) key target = (target, Some (Error (''Invalid permission: '' @ p)))) \<and>
   (p \<in> {''r'', ''w'', ''rw'', ''none''} \<longrightarrow>
      decorate (Some p) key target = (AList.update key p target, None)) \<and>
   decorate None key target = (AList.update key ''none'' target, None) \<and>
   map_of (fst (decorate None key target)) key = Some ''none''"
  by (auto simp: decorate_def Restrict_def defineMetadata_def update_conv')

text \<open>
  Claim C8 says that declaring a permission whose value is outside the four permissions
  throws at declaration time and registers nothing, and that a missing argument registers
  \<^verbatim>\<open>'none'\<close>.  The source misses one value: the empty string is outside the four
  permissions, but it is falsy, so the test \<^verbatim>\<open>permission && ...\<close> skips the validation
  and the default for a missing argument applies.  \<^verbatim>\<open>Restrict('')\<close> throws nothing and
  the permission \<^verbatim>\<open>'none'\<close> is registered for the field.
\<close>

theorem Restrict_empty_string:
  "'''' \<notin> {''r'', ''w'', ''rw'', ''none''} \<and>
   Restrict (Some '''') = Inr (defineMetadata ''none'') \<and>
   decorate (Some '''') ''secret'' [] = ([(''secret'', ''none'')], None)"
  by (simp add: decorate_def Restrict_def defineMetadata_def)

section \<open>Reading and writing\<close>

text \<open>
  Claim C5.  When the first segment of the path names a field whose effective permission
  forbids writing, and the write is not passed on to a nested store, \<^verbatim>\<open>write\<close> throws
  \<^verbatim>\<open>Error('No permission for write')\<close> and the store, every field included, is as
  before.
\<close>

theorem write_denied_unchanged:
  "nestedStore (splitColon path) this = None \<Longrightarrow>
   \<not> allowedToWrite this (first_key (splitColon path)) \<Longrightarrow>
   Store_write this path val = (this, Inl (Error ''No permission for write''))"
  by (simp add: Store_write_own)

theorem write_denied_unchanged_witness:
  "nestedStore (splitColon ''name:first'')
     (Store ''rw'' [(''name'', ''r'')] [(''name'', VObject [])]) = None \<and>
   \<not> allowedToWrite (Store ''rw'' [(''name'', ''r'')] [(''name'', VObject [])])
        (first_key (splitColon ''name:first'')) \<and>
   Store_write (Store ''rw'' [(''name'', ''r'')] [(''name'', VObject [])]) ''name:first''
       (VPrim (PStr ''Ada''))
     = (Store ''rw'' [(''name'', ''r'')] [(''name'', VObject [])],
        Inl (Error ''No permission for write''))"
proof -
  have n: "nestedStore (splitColon ''name:first'')
     (Store ''rw'' [(''name'', ''r'')] [(''name'', VObject [])]) = None"
    by (simp add: nestedStore_def first_key_def lookup_def)
  have a: "\<not> allowedToWrite (Store ''rw'' [(''name'', ''r'')] [(''name'', VObject [])])
        (first_key (splitColon ''name:first''))"
    by (simp add: allowedToWrite_def getMetadata_def first_key_def str_includes_def)
  show ?thesis using n a write_denied_unchanged [OF n a] by simp
qed

text \<open>
  Claim C1.  When the path has more than one segment and the field named by the first
  segment holds a nested store \<open>T\<close>, \<^verbatim>\<open>S.read(path)\<close> is \<^verbatim>\<open>T.read\<close> of the remaining
  segments joined by a colon, and \<^verbatim>\<open>S.write(path, v)\<close> returns what \<^verbatim>\<open>T.write\<close> of the
  remaining segments returns and leaves \<open>S\<close> holding the store that \<^verbatim>\<open>T.write\<close>
  produced.  Neither depends on the policy or the declarations of \<open>S\<close>.  In particular,
  when \<open>T\<close> has \<^verbatim>\<open>defaultPolicy = 'none'\<close> and declares \<^verbatim>\<open>field\<close> read-write,
  \<^verbatim>\<open>S.read("inner:field")\<close> succeeds and \<^verbatim>\<open>S.read("inner:otherField")\<close> throws
  \<^verbatim>\<open>Error('No permission for read')\<close>, whatever the policy of \<open>S\<close> is.
\<close>

theorem delegation:
  "(1 < length (splitColon path) \<and>
    lookup (fields S) (first_key (splitColon path)) = VStore T \<longrightarrow>
      Store_read S path = Store_read T (joinColon (tl (splitColon path))) \<and>
      Store_write S path val =
        (assignField S (first_key (splitColon path))
           (VStore (fst (Store_write T (joinColon (tl (splitColon path))) val))),
         snd (Store_write T (joinColon (tl (splitColon path))) val))) \<and>
   (lookup (fields S) ''inner'' = VStore T \<and> defaultPolicy T = ''none'' \<and>
    getMetadata T ''field'' = Some ''rw'' \<and> getMetadata T ''otherField'' = None \<longrightarrow>
      Store_read S ''inner:field''
        = Inr (if isFunction (lookup (fields T) ''field'') then call (lookup (fields T) ''field'')
               else lookup (fields T) ''field'') \<and>
      Store_read S ''inner:otherField'' = Inl (Error ''No permission for read''))"
proof -
  have general: "Store_read S path = Store_read T (joinColon (tl (splitColon path))) \<and>
      Store_write S path val =
        (assignField S (first_key (splitColon path))
           (VStore (fst (Store_write T (joinColon (tl (splitColon path))) val))),
         snd (Store_write T (joinColon (tl (splitColon path))) val))"
    if "1 < length (splitColon path)"
      and "lookup (fields S) (first_key (splitColon path)) = VStore T"
    using nestedStore_Some[OF that] by (simp add: Store_read_nested Store_write_nested)
  have particular: "Store_read S ''inner:field''
        = Inr (if isFunction (lookup (fields T) ''field'') then call (lookup (fields T) ''field'')
               else lookup (fields T) ''field'') \<and>
      Store_read S ''inner:otherField'' = Inl (Error ''No permission for read'')"
    if inner: "lookup (fields S) ''inner'' = VStore T" and pol: "defaultPolicy T = ''none''"
      and f: "getMetadata T ''field'' = Some ''rw''" and o: "getMetadata T ''otherField'' = None"
  proof -
    have n1: "nestedStore (splitColon ''inner:field'') S = Some T"
      using inner by (simp add: nestedStore_def first_key_def)
    have n2: "nestedStore (splitColon ''inner:otherField'') S = Some T"
      using inner by (simp add: nestedStore_def first_key_def)
    have t1: "nestedStore (splitColon ''field'') T = None"
      by (simp add: nestedStore_def)
    have t2: "nestedStore (splitColon ''otherField'') T = None"
      by (simp add: nestedStore_def)
    have r1: "Store_read S ''inner:field'' = Store_read T ''field''"
      using Store_read_nested[OF n1] by simp
    have r2: "Store_read S ''inner:otherField'' = Store_read T ''otherField''"
      using Store_read_nested[OF n2] by simp
    have a1: "allowedToRead T ''field''"
      using f by (simp add: allowedToRead_def str_includes_def)
    have a2: "\<not> allowedToRead T ''otherField''"
      using o pol by (simp add: allowedToRead_def str_includes_def)
    show ?thesis
      using a1 a2 unfolding r1 r2 Store_read_own[OF t1] Store_read_own[OF t2]
      by (simp add: first_key_def)
  qed
  from general particular show ?thesis by blast
qed

theorem delegation_witness:
  "Store_read (Store ''none'' [(''inner'', ''none'')]
       [(''inner'', VStore (Store ''none'' [(''field'', ''rw'')] [(''field'', VPrim (PNum 5))]))])
     ''inner:field'' = Inr (VPrim (PNum 5)) \<and>
   Store_read (Store ''rw'' []
       [(''inner'', VStore (Store ''none'' [(''field'', ''rw'')] [(''field'', VPrim (PNum 5))]))])
     ''inner:otherField'' = Inl (Error ''No permission for read'') \<and>
   Store_write (Store ''none'' [(''inner'', ''none'')]
       [(''inner'', VStore (Store ''none'' [(''field'', ''rw'')] [(''field'', VPrim (PNum 5))]))])
     ''inner:field'' (VPrim (PNum 7))
     = (Store ''none'' [(''inner'', ''none'')]
          [(''inner'', VStore (Store ''none'' [(''field'', ''rw'')] [(''field'', VPrim (PNum 7))]))],
        Inr (VPrim (PNum 7)))"
proof -
  let ?T = "Store ''none'' [(''field'', ''rw'')] [(''field'', VPrim (PNum 5))]"
  let ?S = "Store ''none'' [(''inner'', ''none'')] [(''inner'', VStore ?T)]"
  let ?S' = "Store ''rw'' [] [(''inner'', VStore ?T)]"
  have h: "lookup (fields ?S) ''inner'' = VStore ?T \<and> defaultPolicy ?T = ''none'' \<and>
      getMetadata ?T ''field'' = Some ''rw'' \<and> getMetadata ?T ''otherField'' = None"
    by (simp add: lookup_def getMetadata_def)
  have h': "lookup (fields ?S') ''inner'' = VStore ?T \<and> defaultPolicy ?T = ''none'' \<and>
      getMetadata ?T ''field'' = Some ''rw'' \<and> getMetadata ?T ''otherField'' = None"
    by (simp add: lookup_def getMetadata_def)
  have g: "1 < length (splitColon ''inner:field'') \<and>
      lookup (fields ?S) (first_key (splitColon ''inner:field'')) = VStore ?T"
    by (simp add: lookup_def first_key_def)
  have w: "Store_write ?T ''field'' (VPrim (PNum 7))
      = (Store ''none'' [(''field'', ''rw'')] [(''field'', VPrim (PNum 7))], Inr (VPrim (PNum 7)))"
    by (simp add: Store_write.simps nestedStore_def first_key_def allowedToWrite_def
        getMetadata_def str_includes_def performWrite.simps setProp_def assignField_def Let_def)
  have r1: "Store_read ?S ''inner:field'' = Inr (VPrim (PNum 5))"
    using delegation [of "''inner:field''" ?S ?T "VPrim (PNum 7)", THEN conjunct2, THEN mp, OF h]
    by (simp add: lookup_def)
  have r2: "Store_read ?S' ''inner:otherField'' = Inl (Error ''No permission for read'')"
    using delegation [of "''inner:field''" ?S' ?T "VPrim (PNum 7)", THEN conjunct2, THEN mp, OF h']
    by simp
  have r3: "Store_write ?S ''inner:field'' (VPrim (PNum 7))
     = (Store ''none'' [(''inner'', ''none'')]
          [(''inner'', VStore (Store ''none'' [(''field'', ''rw'')] [(''field'', VPrim (PNum 7))]))],
        Inr (VPrim (PNum 7)))"
    using delegation [of "''inner:field''" ?S ?T "VPrim (PNum 7)", THEN conjunct1, THEN mp, OF g]
    by (simp add: w first_key_def assignField_def)
  from r1 r2 r3 show ?thesis by blast
qed

text \<open>
  Claim C9.  For a path of more than one segment that is not passed on to a nested store,
  \<^verbatim>\<open>read\<close> throws \<^verbatim>\<open>Error('No permission for read')\<close> exactly when
  \<^verbatim>\<open>allowedToRead\<close> fails for the first segment, and \<^verbatim>\<open>write\<close> throws
  \<^verbatim>\<open>Error('No permission for write')\<close> exactly when \<^verbatim>\<open>allowedToWrite\<close> fails for it.
  The store's permissions enter the result through that one test only: two stores with
  the same fields that agree on it give the same result, whatever they declare for the
  later segments.
\<close>

theorem first_segment_only:
  "1 < length (splitColon path) \<and> nestedStore (splitColon path) this = None \<longrightarrow>
     (Store_read this path = Inl (Error ''No permission for read'')
        \<longleftrightarrow> \<not> allowedToRead this (first_key (splitColon path))) \<and>
     (snd (Store_write this path val) = Inl (Error ''No permission for write'')
        \<longleftrightarrow> \<not> allowedToWrite this (first_key (splitColon path))) \<and>
     (fields this' = fields this \<and>
      allowedToRead this' (first_key (splitColon path))
        = allowedToRead this (first_key (splitColon path)) \<longrightarrow>
        Store_read this' path = Store_read this path) \<and>
     (fields this' = fields this \<and>
      allowedToWrite this' (first_key (splitColon path))
        = allowedToWrite this (first_key (splitColon path)) \<longrightarrow>
        snd (Store_write this' path val) = snd (Store_write this path val) \<and>
        fields (fst (Store_write this' path val)) = fields (fst (Store_write this path val)))"
proof (intro impI, elim conjE)
  assume multi: "1 < length (splitColon path)"
    and own: "nestedStore (splitColon path) this = None"
  have r: "Store_read this path = Inl (Error ''No permission for read'')
        \<longleftrightarrow> \<not> allowedToRead this (first_key (splitColon path))"
    using performRead_error[of "splitColon path" "VStore this"]
    by (auto simp: Store_read_own[OF own] split: sum.splits)
  have w: "snd (Store_write this path val) = Inl (Error ''No permission for write'')
        \<longleftrightarrow> \<not> allowedToWrite this (first_key (splitColon path))"
    using performWrite_error[of "splitColon path" val "VStore this"]
    by (auto simp: Store_write_own[OF own] split: prod.splits option.splits)
  have r': "Store_read this' path = Store_read this path"
    if f: "fields this' = fields this"
      and a: "allowedToRead this' (first_key (splitColon path))
        = allowedToRead this (first_key (splitColon path))"
  proof -
    have own': "nestedStore (splitColon path) this' = None"
      using own nestedStore_fields[OF f] by simp
    show ?thesis
      unfolding Store_read_own[OF own] Store_read_own[OF own']
      using a f performRead_fields[OF f] by simp
  qed
  have w': "snd (Store_write this' path val) = snd (Store_write this path val) \<and>
        fields (fst (Store_write this' path val)) = fields (fst (Store_write this path val))"
    if f: "fields this' = fields this"
      and a: "allowedToWrite this' (first_key (splitColon path))
        = allowedToWrite this (first_key (splitColon path))"
  proof -
    have own': "nestedStore (splitColon path) this' = None"
      using own nestedStore_fields[OF f] by simp
    obtain fs r where
      "performWrite (splitColon path) val (VStore this')
          = (VStore (Store (defaultPolicy this') (metadata this') fs), r)"
      "performWrite (splitColon path) val (VStore this)
          = (VStore (Store (defaultPolicy this) (metadata this) fs), r)"
      using performWrite_fields[OF f] by blast
    then show ?thesis
      unfolding Store_write_own[OF own] Store_write_own[OF own']
      using a f by simp
  qed
  from r w r' w' show "(Store_read this path = Inl (Error ''No permission for read'')
        \<longleftrightarrow> \<not> allowedToRead this (first_key (splitColon path))) \<and>
     (snd (Store_write this path val) = Inl (Error ''No permission for write'')
        \<longleftrightarrow> \<not> allowedToWrite this (first_key (splitColon path))) \<and>
     (fields this' = fields this \<and>
      allowedToRead this' (first_key (splitColon path))
        = allowedToRead this (first_key (splitColon path)) \<longrightarrow>
        Store_read this' path = Store_read this path) \<and>
     (fields this' = fields this \<and>
      allowedToWrite this' (first_key (splitColon path))
        = allowedToWrite this (first_key (splitColon path)) \<longrightarrow>
        snd (Store_write this' path val) = snd (Store_write this path val) \<and>
        fields (fst (Store_write this' path val)) = fields (fst (Store_write this path val)))"
    by blast
qed

theorem first_segment_only_witness:
  "Store_read (Store ''none'' [(''profile'', ''r''), (''secret'', ''none'')]
       [(''profile'', VObject [(''secret'', VPrim (PStr ''x''))])]) ''profile:secret''
     \<noteq> Inl (Error ''No permission for read'') \<and>
   snd (Store_write (Store ''none'' [(''profile'', ''r''), (''secret'', ''none'')]
       [(''profile'', VObject [(''secret'', VPrim (PStr ''x''))])]) ''profile:secret'' VUndefined)
     = Inl (Error ''No permission for write'') \<and>
   Store_read (Store ''none'' [(''profile'', ''r''), (''secret'', ''rw'')]
       [(''profile'', VObject [(''secret'', VPrim (PStr ''x''))])]) ''profile:secret''
     = Store_read (Store ''none'' [(''profile'', ''r''), (''secret'', ''none'')]
       [(''profile'', VObject [(''secret'', VPrim (PStr ''x''))])]) ''profile:secret''"
proof -
  let ?fs = "[(''profile'', VObject [(''secret'', VPrim (PStr ''x''))])]"
  let ?s1 = "Store ''none'' [(''profile'', ''r''), (''secret'', ''none'')] ?fs"
  let ?s2 = "Store ''none'' [(''profile'', ''r''), (''secret'', ''rw'')] ?fs"
  have h: "1 < length (splitColon ''profile:secret'') \<and>
      nestedStore (splitColon ''profile:secret'') ?s1 = None"
    by (simp add: nestedStore_def first_key_def lookup_def)
  have k: "first_key (splitColon ''profile:secret'') = ''profile''"
    by (simp add: first_key_def)
  have a: "allowedToRead ?s1 ''profile'' \<and> \<not> allowedToWrite ?s1 ''profile'' \<and>
      allowedToRead ?s2 ''profile'' = allowedToRead ?s1 ''profile''"
    by (simp add: allowedToRead_def allowedToWrite_def getMetadata_def str_includes_def)
  show ?thesis
    using first_segment_only [of "''profile:secret''" ?s1 VUndefined ?s2, THEN mp, OF h] a
    unfolding k by simp
qed

text \<open>
  Claim C6.  A function that \<^verbatim>\<open>read\<close> resolves is invoked and its return value used:
  at the top level the result is the return value; in the traversal a function at the
  last key is invoked, and a function at an earlier key is invoked and the traversal
  goes on in what it returns; a function that the traversal returns is invoked by
  \<^verbatim>\<open>read\<close>; and a function held under plain objects at any depth is invoked (its
  return value being invoked once more by \<^verbatim>\<open>read\<close> when it is a function itself).
\<close>

theorem lazy_values_invoked:
  "(CHR '':'' \<notin> set key \<and> allowedToRead this key \<and>
    lookup (fields this) key = VFunction r ps \<longrightarrow> Store_read this key = Inr r) \<and>
   (getProp current key = Inr (VFunction r ps) \<longrightarrow>
      performRead [key] current = Inr r \<and>
      (rest \<noteq> [] \<longrightarrow> performRead (key # rest) current = performRead rest r)) \<and>
   (1 < length (splitColon path) \<and> nestedStore (splitColon path) this = None \<and>
    allowedToRead this (first_key (splitColon path)) \<and>
    performRead (splitColon path) (VStore this) = Inr (VFunction r ps) \<longrightarrow>
      Store_read this path = Inr r) \<and>
   (rest \<noteq> [] \<and> list_all (\<lambda>k. CHR '':'' \<notin> set k) (key # rest) \<and>
    allowedToRead this key \<and> lookup (fields this) key = nest rest (VFunction r ps) \<longrightarrow>
      Store_read this (joinColon (key # rest)) = Inr (if isFunction r then call r else r))"
proof -
  have top: "Store_read this key = Inr r"
    if "CHR '':'' \<notin> set key" "allowedToRead this key" "lookup (fields this) key = VFunction r ps"
  proof -
    have sp: "splitColon key = [key]" using that(1) by (rule splitColon_single)
    have own: "nestedStore (splitColon key) this = None" by (simp add: sp nestedStore_def)
    show ?thesis using that by (simp add: Store_read_own[OF own] sp first_key_def)
  qed
  have multi: "Store_read this path = Inr r"
    if "1 < length (splitColon path)" "nestedStore (splitColon path) this = None"
      "allowedToRead this (first_key (splitColon path))"
      "performRead (splitColon path) (VStore this) = Inr (VFunction r ps)"
    using that by (simp add: Store_read_own)
  have deep: "Store_read this (joinColon (key # rest)) = Inr (if isFunction r then call r else r)"
    if ne: "rest \<noteq> []" and cf: "list_all (\<lambda>k. CHR '':'' \<notin> set k) (key # rest)"
      and al: "allowedToRead this key" and f: "lookup (fields this) key = nest rest (VFunction r ps)"
  proof -
    have sp: "splitColon (joinColon (key # rest)) = key # rest"
      using cf by (intro splitColon_joinColon) simp_all
    have plain: "\<not> isStore (nest rest (VFunction r ps)) \<and> \<not> isFunction (nest rest (VFunction r ps))"
      using ne by (rule nest_not_Store)
    have own: "nestedStore (splitColon (joinColon (key # rest))) this = None"
      using plain f by (cases "nest rest (VFunction r ps)") (simp_all add: sp nestedStore_def first_key_def)
    have "performRead (key # rest) (VStore this) = performRead rest (nest rest (VFunction r ps))"
      using plain ne f by (intro performRead_plain_step) simp_all
    then have pr: "performRead (key # rest) (VStore this) = Inr r"
      using ne by (simp add: performRead_nest_function)
    show ?thesis
      using al ne by (simp add: Store_read_own[OF own] sp first_key_def pr)
  qed
  from top multi deep show ?thesis
    by (simp add: performRead_function_last performRead_function_step)
qed

theorem lazy_values_invoked_witness:
  "Store_read (Store ''rw'' [] [(''now'', VFunction (VPrim (PNum 42)) [])]) ''now''
     = Inr (VPrim (PNum 42)) \<and>
   Store_read (Store ''rw'' []
       [(''a'', VObject [(''b'', VFunction (VPrim (PNum 42)) [])])]) ''a:b''
     = Inr (VPrim (PNum 42)) \<and>
   performRead [''f'', ''x''] (VObject [(''f'', VFunction (VObject [(''x'', VPrim (PNum 1))]) [])])
     = Inr (VPrim (PNum 1))"
proof -
  have t: "Store_read (Store ''rw'' [] [(''now'', VFunction (VPrim (PNum 42)) [])]) ''now''
     = Inr (VPrim (PNum 42))"
    using lazy_values_invoked
      [of "''now''" "Store ''rw'' [] [(''now'', VFunction (VPrim (PNum 42)) [])]"
          "VPrim (PNum 42)" "[]" ]
    by (simp add: allowedToRead_def getMetadata_def str_includes_def lookup_def)
  have d: "Store_read (Store ''rw'' []
       [(''a'', VObject [(''b'', VFunction (VPrim (PNum 42)) [])])]) ''a:b''
     = Inr (VPrim (PNum 42))"
    using lazy_values_invoked
      [of "''a''" "Store ''rw'' [] [(''a'', VObject [(''b'', VFunction (VPrim (PNum 42)) [])])]"
          "VPrim (PNum 42)" "[]" _ "[''b'']"]
    by (simp add: allowedToRead_def getMetadata_def str_includes_def lookup_def)
  have s: "performRead [''f'', ''x'']
       (VObject [(''f'', VFunction (VObject [(''x'', VPrim (PNum 1))]) [])])
     = Inr (VPrim (PNum 1))"
    using lazy_values_invoked
      [of _ _ "VObject [(''x'', VPrim (PNum 1))]" "[]"
          "VObject [(''f'', VFunction (VObject [(''x'', VPrim (PNum 1))]) [])]"  "[''x'']"]
    by (simp add: lookup_def performRead.simps first_key_def)
  from t d s show ?thesis by simp
qed

text \<open>
  Claim C3 (as amended).  In \<^verbatim>\<open>performWrite\<close>, at a step with keys remaining, on a
  container that is an object and whose entry at the key is not a store: when the entry
  is absent (\<^verbatim>\<open>undefined\<close>), an empty plain object is created at that entry and the write
  goes on in it, which succeeds and builds the plain objects of the remaining keys; when
  the entry holds a truthy value, no object is created and the write goes on in that
  present value.  In particular, when \<^verbatim>\<open>x\<close> is undefined and may be written,
  \<^verbatim>\<open>write("x:y", v)\<close> makes \<^verbatim>\<open>x\<close> the plain object \<^verbatim>\<open>{y: v}\<close> and returns \<open>v\<close>; a
  following \<^verbatim>\<open>read("x:y")\<close>, when \<^verbatim>\<open>x\<close> may be read and \<open>v\<close> is neither a function nor
  a store, returns \<open>v\<close>.
\<close>

theorem auto_vivification:
  "(1 < length keys \<and> isObject current \<and>
    getProp current (first_key keys) = Inr c \<and> \<not> isStore c \<longrightarrow>
      (c = VUndefined \<longrightarrow>
         performWrite keys val current
           = (putProp current (first_key keys) (fst (performWrite (tl keys) val (VObject []))),
              snd (performWrite (tl keys) val (VObject []))) \<and>
         performWrite (tl keys) val (VObject []) = (nest (tl keys) val, None)) \<and>
      (truthy c \<longrightarrow>
         performWrite keys val current
           = (putProp current (first_key keys) (fst (performWrite (tl keys) val c)),
              snd (performWrite (tl keys) val c)))) \<and>
   (path = x @ '':'' @ y \<and> CHR '':'' \<notin> set x \<and> CHR '':'' \<notin> set y \<and>
    lookup (fields this) x = VUndefined \<and> allowedToWrite this x \<longrightarrow>
      Store_write this path val = (assignField this x (VObject [(y, val)]), Inr val) \<and>
      lookup (fields (assignField this x (VObject [(y, val)]))) x = VObject [(y, val)] \<and>
      (allowedToRead this x \<and> \<not> isStore val \<and> \<not> isFunction val \<longrightarrow>
         Store_read (assignField this x (VObject [(y, val)])) path = Inr val))"
proof -
  have absent: "performWrite keys val current
           = (putProp current (first_key keys) (fst (performWrite (tl keys) val (VObject []))),
              snd (performWrite (tl keys) val (VObject []))) \<and>
         performWrite (tl keys) val (VObject []) = (nest (tl keys) val, None)"
    if len: "1 < length keys" and obj: "isObject current"
      and c: "getProp current (first_key keys) = Inr c" and u: "c = VUndefined"
  proof -
    from len have ne: "tl keys \<noteq> []" by (cases keys) auto
    have e: "performWrite (tl keys) val (VObject []) = (nest (tl keys) val, None)"
      using ne by (rule performWrite_empty_object)
    from u have f: "\<not> truthy c" by simp
    show ?thesis
      using performWrite_vivify[OF len obj c f, of val] e by simp
  qed
  have present: "performWrite keys val current
           = (putProp current (first_key keys) (fst (performWrite (tl keys) val c)),
              snd (performWrite (tl keys) val c))"
    if len: "1 < length keys" and obj: "isObject current"
      and c: "getProp current (first_key keys) = Inr c" and t: "truthy c"
    using performWrite_existing[OF len obj c, of val] t by simp
  have sp: "splitColon path = [x, y]"
    if "path = x @ '':'' @ y" "CHR '':'' \<notin> set x" "CHR '':'' \<notin> set y"
    using that by (simp add: splitColon_append splitColon_single)
  have wr: "Store_write this path val = (assignField this x (VObject [(y, val)]), Inr val)"
    if p: "path = x @ '':'' @ y" and x: "CHR '':'' \<notin> set x" and y: "CHR '':'' \<notin> set y"
      and u: "lookup (fields this) x = VUndefined" and a: "allowedToWrite this x"
  proof -
    have own: "nestedStore (splitColon path) this = None"
      using u by (simp add: sp[OF p x y] nestedStore_def first_key_def)
    have "performWrite [x, y] val (VStore this)
        = (putProp (VStore this) x (nest [y] val), None)"
      using performWrite_vivify[of "[x, y]" "VStore this" VUndefined val] u
      by (simp add: first_key_def)
    then show ?thesis
      using a by (simp add: Store_write_own[OF own] sp[OF p x y] first_key_def)
  qed
  have lk: "lookup (fields (assignField this x (VObject [(y, val)]))) x = VObject [(y, val)]"
    by (simp add: assignField_def lookup_def update_conv')
  have rd: "Store_read (assignField this x (VObject [(y, val)])) path = Inr val"
    if p: "path = x @ '':'' @ y" and x: "CHR '':'' \<notin> set x" and y: "CHR '':'' \<notin> set y"
      and a: "allowedToRead this x" and v: "\<not> isStore val" "\<not> isFunction val"
  proof -
    let ?s = "assignField this x (VObject [(y, val)])"
    have own: "nestedStore (splitColon path) ?s = None"
      using lk by (simp add: sp[OF p x y] nestedStore_def first_key_def)
    have a': "allowedToRead ?s x"
      using a by (simp add: allowedToRead_def getMetadata_def assignField_def split: option.splits)
    have "performRead [x, y] (VStore ?s) = performRead [y] (VObject [(y, val)])"
      using lk by (intro performRead_plain_step) simp_all
    also have "\<dots> = Inr val"
      using v by (intro performRead_plain_last) (simp_all add: lookup_def)
    finally show ?thesis
      using a' v by (simp add: Store_read_own[OF own] sp[OF p x y] first_key_def)
  qed
  from absent present wr lk rd show ?thesis by blast
qed

theorem auto_vivification_witness:
  "Store_write (Store ''rw'' [] []) ''x:y'' (VPrim (PNum 5))
     = (Store ''rw'' [] [(''x'', VObject [(''y'', VPrim (PNum 5))])], Inr (VPrim (PNum 5))) \<and>
   Store_read (Store ''rw'' [] [(''x'', VObject [(''y'', VPrim (PNum 5))])]) ''x:y''
     = Inr (VPrim (PNum 5)) \<and>
   performWrite [''a'', ''b''] (VPrim (PNum 5)) (VObject [(''a'', VObject [(''c'', VPrim PNull)])])
     = (VObject [(''a'', VObject [(''c'', VPrim PNull), (''b'', VPrim (PNum 5))])], None) \<and>
   performWrite [''a'', ''b'', ''c''] (VPrim (PNum 5)) (VObject [])
     = (VObject [(''a'', VObject [(''b'', VObject [(''c'', VPrim (PNum 5))])])], None)"
proof -
  let ?s = "Store ''rw'' [] [] :: StoreValue Store"
  have h: "''x:y'' = ''x'' @ '':'' @ ''y'' \<and> CHR '':'' \<notin> set ''x'' \<and> CHR '':'' \<notin> set ''y'' \<and>
      lookup (fields ?s) ''x'' = VUndefined \<and> allowedToWrite ?s ''x''"
    by (simp add: lookup_def allowedToWrite_def getMetadata_def str_includes_def)
  have r: "allowedToRead ?s ''x'' \<and> \<not> isStore (VPrim (PNum 5)) \<and> \<not> isFunction (VPrim (PNum 5))"
    by (simp add: allowedToRead_def getMetadata_def str_includes_def)
  have g: "1 < length [''a'', ''b''] \<and> isObject (VObject [(''a'', VObject [(''c'', VPrim PNull)])]) \<and>
      getProp (VObject [(''a'', VObject [(''c'', VPrim PNull)])]) (first_key [''a'', ''b''])
        = Inr (VObject [(''c'', VPrim PNull)]) \<and> \<not> isStore (VObject [(''c'', VPrim PNull)])"
    by (simp add: first_key_def lookup_def)
  have g': "1 < length [''a'', ''b'', ''c''] \<and> isObject (VObject []) \<and>
      getProp (VObject []) (first_key [''a'', ''b'', ''c'']) = Inr VUndefined \<and>
      \<not> isStore VUndefined"
    by (simp add: first_key_def lookup_def)
  note viv = auto_vivification
    [where path = "''x:y''" and x = "''x''" and y = "''y''" and this = ?s and val = "VPrim (PNum 5)"
       and keys = "[''a'', ''b'']" and current = "VObject [(''a'', VObject [(''c'', VPrim PNull)])]"
       and c = "VObject [(''c'', VPrim PNull)]"]
  note viv' = auto_vivification
    [where val = "VPrim (PNum 5)" and keys = "[''a'', ''b'', ''c'']" and current = "VObject []"
       and c = VUndefined]
  have w: "Store_write ?s ''x:y'' (VPrim (PNum 5))
     = (Store ''rw'' [] [(''x'', VObject [(''y'', VPrim (PNum 5))])], Inr (VPrim (PNum 5)))"
    using viv [THEN conjunct2, THEN mp, OF h]
    by (simp add: assignField_def)
  have rd: "Store_read (Store ''rw'' [] [(''x'', VObject [(''y'', VPrim (PNum 5))])]) ''x:y''
     = Inr (VPrim (PNum 5))"
    using r viv [THEN conjunct2, THEN mp, OF h]
    by (simp add: assignField_def)
  have st: "performWrite [''a'', ''b''] (VPrim (PNum 5)) (VObject [(''a'', VObject [(''c'', VPrim PNull)])])
     = (VObject [(''a'', VObject [(''c'', VPrim PNull), (''b'', VPrim (PNum 5))])], None)"
    using viv [THEN conjunct1, THEN mp, OF g]
    by (simp add: first_key_def performWrite_last setProp_def)
  have ab: "performWrite [''a'', ''b'', ''c''] (VPrim (PNum 5)) (VObject [])
     = (VObject [(''a'', VObject [(''b'', VObject [(''c'', VPrim (PNum 5))])])], None)"
    using viv' [THEN conjunct1, THEN mp, OF g']
    by (simp add: first_key_def)
  from w rd st ab show ?thesis by simp
qed

text \<open>
  Claim C3 as stated fails in its last part: a function written at \<^verbatim>\<open>x:y\<close>, where
  \<^verbatim>\<open>x\<close> was undefined, is stored as it is, and the following \<^verbatim>\<open>read("x:y")\<close> invokes
  it and returns the value it returns, not the value written.
\<close>

theorem auto_vivification_counterexample:
  "lookup (fields (Store ''rw'' [] [])) ''x'' = VUndefined \<and>
   Store_write (Store ''rw'' [] []) ''x:y'' (VFunction (VPrim (PNum 7)) [])
     = (Store ''rw'' [] [(''x'', VObject [(''y'', VFunction (VPrim (PNum 7)) [])])],
        Inr (VFunction (VPrim (PNum 7)) [])) \<and>
   Store_read (Store ''rw'' [] [(''x'', VObject [(''y'', VFunction (VPrim (PNum 7)) [])])])
       ''x:y''
     = Inr (VPrim (PNum 7)) \<and>
   VPrim (PNum 7) \<noteq> VFunction (VPrim (PNum 7)) []"
  by (simp add: store_eval)

text \<open>
  Claim C2 says that \<^verbatim>\<open>read\<close> returns \<^verbatim>\<open>undefined\<close> when the traversal meets a
  missing field with segments remaining.  The source throws a \<^verbatim>\<open>TypeError\<close> there:
  \<^verbatim>\<open>performRead\<close> goes on with \<^verbatim>\<open>undefined\<close> as the container and reads a property of
  it.  Only a field missing at the last segment gives \<^verbatim>\<open>undefined\<close>.
\<close>

theorem read_missing_intermediate:
  "Store_read (Store ''rw'' [] []) ''a:b'' = Inl TypeError \<and>
   Store_read (Store ''rw'' [] [(''a'', VObject [])]) ''a:b:c'' = Inl TypeError \<and>
   Store_read (Store ''rw'' [] [(''a'', VObject [])]) ''a:b'' = Inr VUndefined"
  by (simp add: store_eval)

section \<open>Bulk operations\<close>

text \<open>
  Claim C7.  The keys of \<^verbatim>\<open>entries()\<close> are exactly the store's own fields that have a
  declared permission and pass \<^verbatim>\<open>allowedToRead\<close>, each with the field's value.  A
  field with no declaration is left out, also when \<^verbatim>\<open>defaultPolicy\<close> lets it be read.
\<close>

theorem entries_declared_and_readable:
  "fst ` set (entries this)
     = {key \<in> fst ` set (fields this). hasMetadata this key \<and> allowedToRead this key} \<and>
   (getMetadata this key = None \<longrightarrow> key \<notin> fst ` set (entries this)) \<and>
   (key \<in> fst ` set (entries this) \<longrightarrow>
      map_of (entries this) key = Some (lookup (fields this) key))"
proof -
  have keys: "fst ` set (entries this)
     = {key \<in> fst ` set (fields this). hasMetadata this key \<and> allowedToRead this key}"
    unfolding entries_def by (simp add: fold_update_keys)
  have undeclared: "key \<notin> fst ` set (entries this)" if "getMetadata this key = None"
    using that unfolding keys by (simp add: hasMetadata_def)
  have vals: "map_of (entries this) key = Some (lookup (fields this) key)"
    if "key \<in> fst ` set (entries this)"
  proof -
    from that have "key \<in> set (map fst (fields this)) \<and> hasMetadata this key
        \<and> allowedToRead this key"
      unfolding keys by simp
    then show ?thesis
      unfolding entries_def by (simp add: fold_update_map_of)
  qed
  from keys undeclared vals show ?thesis by blast
qed

theorem entries_declared_and_readable_witness:
  "fst ` set (entries (Store ''rw'' [(''a'', ''r''), (''b'', ''w'')]
       [(''a'', VPrim (PNum 1)), (''b'', VPrim (PNum 2)), (''c'', VPrim (PNum 3))])) = {''a''} \<and>
   ''c'' \<notin> fst ` set (entries (Store ''rw'' [(''a'', ''r''), (''b'', ''w'')]
       [(''a'', VPrim (PNum 1)), (''b'', VPrim (PNum 2)), (''c'', VPrim (PNum 3))])) \<and>
   map_of (entries (Store ''rw'' [(''a'', ''r''), (''b'', ''w'')]
       [(''a'', VPrim (PNum 1)), (''b'', VPrim (PNum 2)), (''c'', VPrim (PNum 3))])) ''a''
     = Some (VPrim (PNum 1)) \<and>
   Store_read (Store ''rw'' [(''a'', ''r''), (''b'', ''w'')]
       [(''a'', VPrim (PNum 1)), (''b'', VPrim (PNum 2)), (''c'', VPrim (PNum 3))]) ''c''
     = Inr (VPrim (PNum 3))"
  using entries_declared_and_readable [of "Store ''rw'' [(''a'', ''r''), (''b'', ''w'')]
       [(''a'', VPrim (PNum 1)), (''b'', VPrim (PNum 2)), (''c'', VPrim (PNum 3))]" "''c''"]
    entries_declared_and_readable [of "Store ''rw'' [(''a'', ''r''), (''b'', ''w'')]
       [(''a'', VPrim (PNum 1)), (''b'', VPrim (PNum 2)), (''c'', VPrim (PNum 3))]" "''a''"]
  by (simp add: entries_def hasMetadata_def getMetadata_def allowedToRead_def str_includes_def
      lookup_def Store_read.simps nestedStore_def first_key_def)

end
